theory Spec2Isabelle
  imports Complex_Main
begin

section \<open>Texts\<close>

text \<open>
  A Python \<^verbatim>\<open>str\<close> is a sequence of Unicode code points, and the extractor looks for
  the euro sign (U+20AC), so a string of the program is a list
  of code points. \<open>u\<close> turns an ASCII literal into one.

  The character classes below are exact for the code points below 256, for the euro
  sign and for the four letters that \<^verbatim>\<open>re.IGNORECASE\<close> folds onto ASCII letters
  (U+0130, U+0131, U+017F, U+212A). Any other code point above 255 is classified as
  neither digit, nor space, nor word character; this is an approximation for other
  scripts.
\<close>

type_synonym ustr = "nat list"

definition u :: "string \<Rightarrow> ustr" where
  "u s = map of_char s"

definition is_digit :: "nat \<Rightarrow> bool" where
  "is_digit c = (48 \<le> c \<and> c \<le> 57)"

definition is_upper_ascii :: "nat \<Rightarrow> bool" where
  "is_upper_ascii c = (65 \<le> c \<and> c \<le> 90)"

definition is_lower_ascii :: "nat \<Rightarrow> bool" where
  "is_lower_ascii c = (97 \<le> c \<and> c \<le> 122)"

definition is_alpha_ascii :: "nat \<Rightarrow> bool" where
  "is_alpha_ascii c = (is_upper_ascii c \<or> is_lower_ascii c)"

text \<open>\<^verbatim>\<open>\s\<close> on \<^verbatim>\<open>str\<close> patterns: the characters with \<^verbatim>\<open>str.isspace()\<close>.\<close>

definition is_space :: "nat \<Rightarrow> bool" where
  "is_space c = ((9 \<le> c \<and> c \<le> 13) \<or> (28 \<le> c \<and> c \<le> 32) \<or> c = 133 \<or> c = 160)"

text \<open>\<^verbatim>\<open>\w\<close> on \<^verbatim>\<open>str\<close> patterns: \<^verbatim>\<open>str.isalnum()\<close> or the underscore.\<close>

definition is_word :: "nat \<Rightarrow> bool" where
  "is_word c = (is_digit c \<or> is_alpha_ascii c \<or> c = 95 \<or> c = 170 \<or> c = 178 \<or> c = 179
     \<or> c = 181 \<or> c = 185 \<or> c = 186 \<or> (188 \<le> c \<and> c \<le> 190)
     \<or> (192 \<le> c \<and> c \<le> 214) \<or> (216 \<le> c \<and> c \<le> 246) \<or> (248 \<le> c \<and> c \<le> 255)
     \<or> c = 304 \<or> c = 305 \<or> c = 383 \<or> c = 8490)"

text \<open>
  \<^verbatim>\<open>str.upper()\<close>, character by character. It is exact below 256 and on every code point
  whose upper case contains an ASCII character (U+0131 becomes \<open>I\<close>, U+FB01 becomes \<open>FI\<close>, ...).
  The upper case of any other code point is not ASCII, and the code point stands for it.
\<close>

definition upper_cp :: "nat \<Rightarrow> ustr" where
  "upper_cp c =
    (if is_lower_ascii c then [c - 32]
     else if c = 181 then [924]
     else if c = 223 then [83, 83]
     else if (224 \<le> c \<and> c \<le> 246) \<or> (248 \<le> c \<and> c \<le> 254) then [c - 32]
     else if c = 255 then [376]
     else if c = 305 then [73]
     else if c = 329 then [700, 78]
     else if c = 383 then [83]
     else if c = 496 then [74, 780]
     else if c = 7830 then [72, 817]
     else if c = 7831 then [84, 776]
     else if c = 7832 then [87, 778]
     else if c = 7833 then [89, 778]
     else if c = 7834 then [65, 702]
     else if c = 64256 then [70, 70]
     else if c = 64257 then [70, 73]
     else if c = 64258 then [70, 76]
     else if c = 64259 then [70, 70, 73]
     else if c = 64260 then [70, 70, 76]
     else if c = 64261 then [83, 84]
     else if c = 64262 then [83, 84]
     else [c])"

definition upper :: "ustr \<Rightarrow> ustr" where
  "upper t = concat (map upper_cp t)"

text \<open>\<^verbatim>\<open>needle in hay\<close>: the needle occurs as a contiguous run.\<close>

fun starts_with :: "'a list \<Rightarrow> 'a list \<Rightarrow> bool" where
  "starts_with [] hay = True"
| "starts_with (n # ns) [] = False"
| "starts_with (n # ns) (h # hs) = (n = h \<and> starts_with ns hs)"

fun contains :: "'a list \<Rightarrow> 'a list \<Rightarrow> bool" where
  "contains needle [] = (needle = [])"
| "contains needle (h # hs) = (starts_with needle (h # hs) \<or> contains needle hs)"

text \<open>\<^verbatim>\<open>str.replace\<close> for a one-character pattern, and for \<^verbatim>\<open>"\r\n"\<close>.\<close>

definition replace_char :: "nat \<Rightarrow> ustr \<Rightarrow> ustr \<Rightarrow> ustr" where
  "replace_char c new s = concat (map (\<lambda>x. if x = c then new else [x]) s)"

fun replace_crlf :: "ustr \<Rightarrow> ustr" where
  "replace_crlf [] = []"
| "replace_crlf [x] = [x]"
| "replace_crlf (x # y # r) =
     (if x = 13 \<and> y = 10 then 10 # replace_crlf r else x # replace_crlf (y # r))"

definition normalize_text :: "ustr \<Rightarrow> ustr" where
  "normalize_text t = replace_char 13 [10] (replace_crlf t)"

text \<open>\<^verbatim>\<open>str.split(sep)\<close> for a one-character separator.\<close>

fun split_on :: "nat \<Rightarrow> ustr \<Rightarrow> ustr list" where
  "split_on c [] = [] # []"
| "split_on c (x # xs) =
     (if x = c then [] # split_on c xs
      else (case split_on c xs of [] \<Rightarrow> [x] # [] | l # ls \<Rightarrow> (x # l) # ls))"

text \<open>\<^verbatim>\<open>str.rfind\<close> for a one-character pattern: the last index, or -1.\<close>

fun rfind_from :: "nat \<Rightarrow> int \<Rightarrow> int \<Rightarrow> ustr \<Rightarrow> int" where
  "rfind_from c i found [] = found"
| "rfind_from c i found (x # xs) = rfind_from c (i + 1) (if x = c then i else found) xs"

definition rfind :: "nat \<Rightarrow> ustr \<Rightarrow> int" where
  "rfind c s = rfind_from c 0 (- 1) s"

text \<open>\<^verbatim>\<open>str.strip()\<close>.\<close>

definition strip :: "ustr \<Rightarrow> ustr" where
  "strip s = rev (dropWhile is_space (rev (dropWhile is_space s)))"


section \<open>Regular expressions\<close>

text \<open>
  The patterns of the extractor are matched the way \<^verbatim>\<open>re\<close> does it: by backtracking,
  greedy repetitions trying the longest run first, alternatives in the order they are
  written. A matching state holds the position, whether the character before it is a
  word character, the rest of the string, and the groups captured so far. \<open>rmatch r s\<close>
  lists every way of matching \<open>r\<close> from the state \<open>s\<close>, in the order the backtracking
  engine would try them, so the head of the list is the match \<^verbatim>\<open>re\<close> reports. An
  iteration of a repetition must consume a character, which every repeated subpattern of
  this program does.
\<close>

datatype rx =
    Ch "nat \<Rightarrow> bool"
  | Eps
  | Seq rx rx
  | Alt rx rx
  | Rep nat "nat option" rx
  | Grp nat rx
  | WordB

datatype mstate =
  MState (mpos: nat) (mprev_word: bool) (mrest: ustr) (mcaps: "(nat \<times> ustr) list")

text \<open>\<^verbatim>\<open>\b\<close>: exactly one side of the position is a word character.\<close>

definition at_boundary :: "mstate \<Rightarrow> bool" where
  "at_boundary s = (mprev_word s \<noteq> (case mrest s of [] \<Rightarrow> False | x # xs \<Rightarrow> is_word x))"

primrec rep :: "(mstate \<Rightarrow> mstate list) \<Rightarrow> nat \<Rightarrow> nat \<Rightarrow> mstate \<Rightarrow> mstate list" where
  "rep m lo 0 s = (if lo = 0 then [s] else [])"
| "rep m lo (Suc k) s =
     concat (map (rep m (lo - 1) k) (filter (\<lambda>s'. mpos s < mpos s') (m s)))
     @ (if lo = 0 then [s] else [])"

primrec rmatch :: "rx \<Rightarrow> mstate \<Rightarrow> mstate list" where
  "rmatch (Ch p) s =
     (case mrest s of
        [] \<Rightarrow> []
      | x # xs \<Rightarrow> if p x then [MState (mpos s + 1) (is_word x) xs (mcaps s)] else [])"
| "rmatch Eps s = [s]"
| "rmatch (Seq a b) s = concat (map (rmatch b) (rmatch a s))"
| "rmatch (Alt a b) s = rmatch a s @ rmatch b s"
| "rmatch (Rep lo hi r) s =
     rep (rmatch r) lo (case hi of None \<Rightarrow> length (mrest s) | Some h \<Rightarrow> h) s"
| "rmatch (Grp g r) s =
     map (\<lambda>s'. MState (mpos s') (mprev_word s') (mrest s')
                  ((g, take (mpos s' - mpos s) (mrest s)) # mcaps s'))
         (rmatch r s)"
| "rmatch WordB s = (if at_boundary s then [s] else [])"

text \<open>
  \<^verbatim>\<open>re.search\<close>: the leftmost position at which the pattern matches. The result is the
  state at the end of the match, which holds the groups.
\<close>

primrec scan :: "rx \<Rightarrow> nat \<Rightarrow> bool \<Rightarrow> ustr \<Rightarrow> mstate option" where
  "scan r i pw [] =
     (case rmatch r (MState i pw [] []) of [] \<Rightarrow> None | s # ss \<Rightarrow> Some s)"
| "scan r i pw (x # xs) =
     (case rmatch r (MState i pw (x # xs) []) of
        [] \<Rightarrow> scan r (i + 1) (is_word x) xs
      | s # ss \<Rightarrow> Some s)"

definition re_search :: "rx \<Rightarrow> ustr \<Rightarrow> mstate option" where
  "re_search r t = scan r 0 False t"

definition matches :: "rx \<Rightarrow> ustr \<Rightarrow> bool" where
  "matches r t = (re_search r t \<noteq> None)"

text \<open>\<^verbatim>\<open>m.group(g)\<close>: \<open>None\<close> when the group took no part in the match.\<close>

definition group :: "mstate \<Rightarrow> nat \<Rightarrow> ustr option" where
  "group m g = map_of (mcaps m) g"

text \<open>
  \<open>group_of\<close> reads a group that lies outside every optional part of its pattern, so
  that it holds a string whenever the pattern matched.
\<close>

definition group_of :: "mstate \<Rightarrow> nat \<Rightarrow> ustr" where
  "group_of m g = (case group m g of None \<Rightarrow> [] | Some s \<Rightarrow> s)"

text \<open>
  \<^verbatim>\<open>re.finditer\<close>: the matches from left to right, each search starting where the match
  before it ended. The patterns it is used with match at least one character.
\<close>

primrec finditer_from :: "nat \<Rightarrow> rx \<Rightarrow> nat \<Rightarrow> bool \<Rightarrow> ustr \<Rightarrow> mstate list" where
  "finditer_from 0 r i pw t = []"
| "finditer_from (Suc k) r i pw t =
     (case scan r i pw t of
        None \<Rightarrow> []
      | Some m \<Rightarrow> m # finditer_from k r (mpos m) (mprev_word m) (mrest m))"

definition re_finditer :: "rx \<Rightarrow> ustr \<Rightarrow> mstate list" where
  "re_finditer r t = finditer_from (Suc (length t)) r 0 False t"

subsection \<open>Pattern combinators\<close>

definition seqs :: "rx list \<Rightarrow> rx" where
  "seqs rs = foldr Seq rs Eps"

fun alts :: "rx list \<Rightarrow> rx" where
  "alts [] = Eps"
| "alts [r] = r"
| "alts (r # rs) = Alt r (alts rs)"

definition star :: "rx \<Rightarrow> rx" where
  "star r = Rep 0 None r"

definition plus_rx :: "rx \<Rightarrow> rx" where
  "plus_rx r = Rep 1 None r"

definition opt :: "rx \<Rightarrow> rx" where
  "opt r = Rep 0 (Some 1) r"

definition times :: "nat \<Rightarrow> rx \<Rightarrow> rx" where
  "times n r = Rep n (Some n) r"

definition lit :: "string \<Rightarrow> rx" where
  "lit s = seqs (map (\<lambda>c. Ch (\<lambda>x. x = of_char c)) s)"

text \<open>
  A literal character under \<^verbatim>\<open>re.IGNORECASE\<close>: both ASCII cases, and the code points
  that \<^verbatim>\<open>re\<close> folds onto an ASCII letter (U+0130 and U+0131 onto \<open>i\<close>, U+017F onto \<open>s\<close>,
  U+212A onto \<open>k\<close>).
\<close>

definition lower_ascii :: "nat \<Rightarrow> nat" where
  "lower_ascii c = (if is_upper_ascii c then c + 32 else c)"

definition ci_eq :: "nat \<Rightarrow> nat \<Rightarrow> bool" where
  "ci_eq p x =
     (lower_ascii x = lower_ascii p
      \<or> (lower_ascii p = 105 \<and> (x = 304 \<or> x = 305))
      \<or> (lower_ascii p = 115 \<and> x = 383)
      \<or> (lower_ascii p = 107 \<and> x = 8490))"

definition liti :: "string \<Rightarrow> rx" where
  "liti s = seqs (map (\<lambda>c. Ch (ci_eq (of_char c))) s)"

definition digit :: rx where
  "digit = Ch is_digit"

definition space :: rx where
  "space = Ch is_space"


section \<open>The field extraction engine (extractor.py)\<close>

datatype exn =
    ExtractorFailure ustr ustr
  | TimeoutError ustr
  | OtherException ustr

record fields =
  doc_type :: "ustr option"
  invoice_number :: "ustr option"
  invoice_date :: "ustr option"
  total_amount :: "rat option"
  currency :: "ustr option"

definition MONTHS :: "(ustr \<times> nat) list" where
  "MONTHS =
     [(u ''january'', 1), (u ''february'', 2), (u ''march'', 3), (u ''april'', 4),
      (u ''may'', 5), (u ''june'', 6), (u ''july'', 7), (u ''august'', 8),
      (u ''september'', 9), (u ''october'', 10), (u ''november'', 11), (u ''december'', 12)]"

definition SUPPORTED_CURRENCY_CODES :: "ustr list" where
  "SUPPORTED_CURRENCY_CODES =
     map u [''USD'', ''EUR'', ''GBP'', ''AUD'', ''CAD'', ''CHF'', ''CNY'', ''INR'', ''JPY'', ''NZD'']"

subsection \<open>Document type\<close>

definition detect_doc_type :: "ustr \<Rightarrow> ustr" where
  "detect_doc_type t =
     (let up = upper t in
      if contains (u ''INVOICE'') up then u ''invoice''
      else if contains (u ''RECEIPT'') up then u ''receipt''
      else u ''unknown'')"

subsection \<open>Invoice number\<close>

text \<open>
  \<^verbatim>\<open>[A-Za-z0-9\-_/]\<close> under \<^verbatim>\<open>re.IGNORECASE\<close>: the class also takes the four code points
  that fold onto an ASCII letter.
\<close>

definition is_token_char :: "nat \<Rightarrow> bool" where
  "is_token_char c =
     (is_alpha_ascii c \<or> is_digit c \<or> c = 45 \<or> c = 95 \<or> c = 47
      \<or> c = 304 \<or> c = 305 \<or> c = 383 \<or> c = 8490)"

definition token :: rx where
  "token = Grp 1 (plus_rx (Ch is_token_char))"

definition colon_or_hash :: rx where
  "colon_or_hash = Ch (\<lambda>c. c = 58 \<or> c = 35)"

definition colon_or_space :: rx where
  "colon_or_space = Ch (\<lambda>c. c = 58 \<or> is_space c)"

definition invoice_patterns :: "rx list" where
  "invoice_patterns =
     [seqs [liti ''Invoice'', star space, liti ''Number'', opt colon_or_hash, star space, token],
      seqs [liti ''Invoice'', star space, lit ''#'', star colon_or_space, token],
      seqs [liti ''Invoice'', plus_rx colon_or_space, token],
      seqs [liti ''Transaction'', star space, lit ''#'', star colon_or_space, token],
      seqs [liti ''Transaction'', star space, liti ''Number'', opt colon_or_hash, star space,
            token]]"

fun first_group :: "rx list \<Rightarrow> ustr \<Rightarrow> ustr option" where
  "first_group [] t = None"
| "first_group (pat # pats) t =
     (case re_search pat t of
        Some m \<Rightarrow> Some (strip (group_of m 1))
      | None \<Rightarrow> first_group pats t)"

definition extract_invoice_number :: "ustr \<Rightarrow> ustr option" where
  "extract_invoice_number t = first_group invoice_patterns t"

subsection \<open>Date\<close>

definition iso_date_pattern :: rx where
  "iso_date_pattern =
     seqs [WordB, Grp 1 (times 4 digit), lit ''-'', Grp 2 (times 2 digit), lit ''-'',
           Grp 3 (times 2 digit), WordB]"

definition month_date_pattern :: rx where
  "month_date_pattern =
     seqs [WordB, Grp 1 (Rep 3 (Some 9) (Ch is_alpha_ascii)), plus_rx space,
           Grp 2 (Rep 1 (Some 2) digit), lit '','', star space, Grp 3 (times 4 digit), WordB]"

text \<open>\<^verbatim>\<open>int(s)\<close> on a run of ASCII digits.\<close>

definition int_of_digits :: "ustr \<Rightarrow> nat" where
  "int_of_digits s = foldl (\<lambda>a d. 10 * a + (d - 48)) 0 s"

definition is_leap :: "nat \<Rightarrow> bool" where
  "is_leap y = (y mod 4 = 0 \<and> (y mod 100 \<noteq> 0 \<or> y mod 400 = 0))"

definition days_in_month :: "nat \<Rightarrow> nat \<Rightarrow> nat" where
  "days_in_month y m =
     (if m = 2 then (if is_leap y then 29 else 28)
      else if m = 4 \<or> m = 6 \<or> m = 9 \<or> m = 11 then 30 else 31)"

text \<open>
  \<^verbatim>\<open>datetime(year, month, day)\<close>: \<open>None\<close> stands for the \<^verbatim>\<open>ValueError\<close> of a date that
  does not exist (years run from 1 to 9999).
\<close>

definition datetime :: "nat \<Rightarrow> nat \<Rightarrow> nat \<Rightarrow> (nat \<times> nat \<times> nat) option" where
  "datetime y m d =
     (if 1 \<le> y \<and> y \<le> 9999 \<and> 1 \<le> m \<and> m \<le> 12 \<and> 1 \<le> d \<and> d \<le> days_in_month y m
      then Some (y, m, d) else None)"

text \<open>
  \<^verbatim>\<open>dt.strftime("%Y-%m-%d")\<close>. The month and the day have two digits; the year is printed
  by the C library, which does not pad it (year 999 prints as \<^verbatim>\<open>999\<close>).
\<close>

definition two_digits :: "nat \<Rightarrow> ustr" where
  "two_digits n = [48 + n div 10 mod 10, 48 + n mod 10]"

definition year_digits :: "nat \<Rightarrow> ustr" where
  "year_digits y =
     dropWhile (\<lambda>c. c = 48)
       [48 + y div 1000 mod 10, 48 + y div 100 mod 10, 48 + y div 10 mod 10, 48 + y mod 10]"

definition strftime_ymd :: "nat \<times> nat \<times> nat \<Rightarrow> ustr" where
  "strftime_ymd dt =
     (case dt of (y, m, d) \<Rightarrow> year_digits y @ u ''-'' @ two_digits m @ u ''-'' @ two_digits d)"

definition extract_date_iso :: "ustr \<Rightarrow> ustr option" where
  "extract_date_iso t =
     (case re_search iso_date_pattern t of
        Some m \<Rightarrow> Some (group_of m 1 @ u ''-'' @ group_of m 2 @ u ''-'' @ group_of m 3)
      | None \<Rightarrow>
         (case re_search month_date_pattern t of
            Some m2 \<Rightarrow>
              (let month_name = map lower_ascii (group_of m2 1) in
               case map_of MONTHS month_name of
                 Some month_num \<Rightarrow>
                   (let day = int_of_digits (group_of m2 2);
                        year = int_of_digits (group_of m2 3)
                    in case datetime year month_num day of
                         Some dt \<Rightarrow> Some (strftime_ymd dt)
                       | None \<Rightarrow> None)
               | None \<Rightarrow> None)
          | None \<Rightarrow> None))"

subsection \<open>Currency and amount\<close>

text \<open>
  \<^verbatim>\<open>float(s)\<close> on the strings the amount patterns can hand to it, which hold digits,
  \<^verbatim>\<open>.\<close>, \<^verbatim>\<open>,\<close> and white space only: surrounding white space is dropped, and what is left
  must be digits with at most one point. \<open>None\<close> stands for the \<^verbatim>\<open>ValueError\<close>. The
  amount is the decimal number the string denotes; the rounding to a double is not
  modelled.
\<close>

definition pyfloat :: "ustr \<Rightarrow> rat option" where
  "pyfloat s =
     (let s' = strip s; ip = takeWhile is_digit s'
      in case dropWhile is_digit s' of
           [] \<Rightarrow> (if ip = [] then None else Some (of_nat (int_of_digits ip)))
         | c # fp \<Rightarrow>
             (if c = 46 \<and> list_all is_digit fp \<and> \<not> (ip = [] \<and> fp = [])
              then Some (of_nat (int_of_digits (ip @ fp)) / 10 ^ length fp)
              else None))"

definition is_symbol :: "nat \<Rightarrow> bool" where
  "is_symbol c = (c = 36 \<or> c = 8364 \<or> c = 163)"

definition total_pattern :: rx where
  "total_pattern =
     seqs [WordB,
           Grp 1 (alts [liti ''TOTAL'',
                        seqs [liti ''Grand'', plus_rx space, liti ''Total''],
                        seqs [liti ''Total'', plus_rx space, liti ''Paid'']]),
           WordB]"

definition symbol_pattern :: rx where
  "symbol_pattern = Ch is_symbol"

definition code_pattern :: rx where
  "code_pattern =
     seqs [WordB,
           Grp 1 (alts (map lit [''USD'', ''EUR'', ''GBP'', ''AUD'', ''CAD'', ''CHF'', ''CNY'',
                                 ''INR'', ''JPY'', ''NZD''])),
           WordB]"

definition dot_or_comma :: rx where
  "dot_or_comma = Ch (\<lambda>c. c = 46 \<or> c = 44)"

definition thousands_mark :: rx where
  "thousands_mark = Ch (\<lambda>c. c = 44 \<or> c = 46 \<or> is_space c)"

definition number_pattern :: rx where
  "number_pattern =
     Alt (seqs [Rep 1 (Some 3) digit, star (seqs [thousands_mark, times 3 digit]),
                seqs [dot_or_comma, times 2 digit]])
         (seqs [plus_rx digit, opt (seqs [dot_or_comma, times 2 digit])])"

definition symbol_amount_regex :: rx where
  "symbol_amount_regex = seqs [Grp 1 (Ch is_symbol), star space, Grp 2 number_pattern]"

definition amount_regex :: rx where
  "amount_regex = seqs [opt (Grp 1 (Ch is_symbol)), star space, Grp 2 number_pattern]"

text \<open>Lines 157 to 162 (and again 183 to 188): from the raw number to the string parsed.\<close>

definition normalize_number :: "ustr \<Rightarrow> ustr" where
  "normalize_number raw_number =
     (let normalized = replace_char 44 [] (replace_char 32 [] raw_number)
      in if 44 \<in> set raw_number \<and> 46 \<in> set raw_number
            \<and> rfind 44 raw_number > rfind 46 raw_number
         then replace_char 44 [46] (replace_char 46 [] raw_number)
         else normalized)"

definition currency_of_symbol :: "ustr \<Rightarrow> ustr option" where
  "currency_of_symbol symbol =
     (if symbol = [8364] then Some (u ''EUR'')
      else if symbol = [36] then Some (u ''USD'')
      else if symbol = [163] then Some (u ''GBP'')
      else None)"

definition line_code_of :: "ustr \<Rightarrow> ustr option" where
  "line_code_of cand =
     (case re_search code_pattern cand of
        None \<Rightarrow> None
      | Some code_match \<Rightarrow>
          (if group_of code_match 1 \<in> set SUPPORTED_CURRENCY_CODES
           then Some (group_of code_match 1) else None))"

text \<open>
  The two loops over the matches of a candidate line. A number that \<^verbatim>\<open>float\<close> rejects
  is skipped (\<^verbatim>\<open>continue\<close>).
\<close>

definition symbol_amounts :: "ustr \<Rightarrow> ustr option \<Rightarrow> (rat \<times> ustr option) list" where
  "symbol_amounts cand line_code =
     List.map_filter
       (\<lambda>m. case pyfloat (normalize_number (group_of m 2)) of
               None \<Rightarrow> None
             | Some amount_val \<Rightarrow>
                 Some (amount_val,
                       (case line_code of
                          None \<Rightarrow> currency_of_symbol (group_of m 1)
                        | Some c \<Rightarrow> Some c)))
       (re_finditer symbol_amount_regex cand)"

definition generic_amounts :: "ustr \<Rightarrow> ustr option \<Rightarrow> (rat \<times> ustr option) list" where
  "generic_amounts cand line_code =
     List.map_filter
       (\<lambda>m. case pyfloat (normalize_number (group_of m 2)) of
               None \<Rightarrow> None
             | Some amount_val \<Rightarrow>
                 Some (amount_val,
                       (case group m 1 of
                          Some symbol_opt \<Rightarrow>
                            (if symbol_opt \<noteq> [] then currency_of_symbol symbol_opt
                             else line_code)
                        | None \<Rightarrow> line_code)))
       (re_finditer amount_regex cand)"

definition candidate_amounts :: "ustr \<Rightarrow> (rat \<times> ustr option) list" where
  "candidate_amounts cand =
     (let line_code = line_code_of cand
      in symbol_amounts cand line_code
         @ (if \<not> matches symbol_amount_regex cand then generic_amounts cand line_code else []))"

definition add_unique :: "ustr list \<Rightarrow> ustr \<Rightarrow> ustr list" where
  "add_unique candidates line = (if line \<in> set candidates then candidates else candidates @ [line])"

definition has_hint :: "ustr \<Rightarrow> bool" where
  "has_hint l = (matches symbol_pattern l \<or> matches code_pattern l)"

definition candidate_lines :: "ustr list \<Rightarrow> ustr list" where
  "candidate_lines normalized_lines =
     (let totals = filter (matches total_pattern) normalized_lines;
          totals_with_currency = filter has_hint totals;
          candidates =
            foldl add_unique []
              (concat [if totals_with_currency \<noteq> [] then totals_with_currency else totals,
                       filter (matches symbol_pattern) normalized_lines,
                       filter (matches code_pattern) normalized_lines]);
          has_any_currency_hint = list_ex has_hint normalized_lines
      in if \<not> has_any_currency_hint
         then foldl add_unique candidates (filter (matches amount_regex) normalized_lines)
         else candidates)"

text \<open>\<^verbatim>\<open>max(xs, key=...)\<close>: the first element with the largest key.\<close>

fun max_by_amount :: "(rat \<times> 'a) \<Rightarrow> (rat \<times> 'a) list \<Rightarrow> (rat \<times> 'a)" where
  "max_by_amount best [] = best"
| "max_by_amount best (x # xs) = max_by_amount (if fst best < fst x then x else best) xs"

definition extract_currency_and_amount :: "ustr \<Rightarrow> ustr option \<times> rat option" where
  "extract_currency_and_amount t =
     (let normalized_lines = split_on 10 (normalize_text t);
          parsed_candidates = concat (map candidate_amounts (candidate_lines normalized_lines))
      in case parsed_candidates of
           [] \<Rightarrow> (None, None)
         | p # ps \<Rightarrow> (case max_by_amount p ps of (best_amount, best_currency) \<Rightarrow>
                        (best_currency, Some best_amount)))"

subsection \<open>The entry point\<close>

definition failure_marker :: ustr where
  "failure_marker = u ''<<TRIGGER_EXTRACTOR_FAILURE>>''"

definition extract_from_text :: "ustr \<Rightarrow> exn + fields" where
  "extract_from_text document_text =
     (if contains failure_marker document_text
      then Inl (ExtractorFailure (u ''EXTRACTOR_TIMEOUT'')
                  (u ''Extraction process timed out after 30 seconds''))
      else
        (case extract_currency_and_amount document_text of (cur, amount) \<Rightarrow>
           Inr \<lparr>doc_type = Some (detect_doc_type document_text),
                invoice_number = extract_invoice_number document_text,
                invoice_date = extract_date_iso document_text,
                total_amount = amount,
                currency = cur\<rparr>))"


section \<open>The job store (models.py, database.py)\<close>

text \<open>
  The status column is a string that only ever holds one of three literals. The two
  timestamps of a row are left out.
\<close>

datatype status = PENDING | COMPLETED | FAILED

record ExtractionRequest = fields +
  id' :: ustr
  idempotency_key :: ustr
  status :: status
  document_text :: ustr
  error_code :: "ustr option"
  error_message :: "ustr option"

datatype db_error = IntegrityError | MultipleResultsFound

text \<open>\<^verbatim>\<open>session.get(ExtractionRequest, request_id)\<close>: the row with that primary key.\<close>

definition session_get :: "ExtractionRequest list \<Rightarrow> ustr \<Rightarrow> ExtractionRequest option" where
  "session_get rows request_id = find (\<lambda>r. id' r = request_id) rows"

text \<open>\<^verbatim>\<open>query.filter(idempotency_key == key).one_or_none()\<close>.\<close>

definition one_or_none :: "ExtractionRequest list \<Rightarrow> ustr \<Rightarrow> db_error + ExtractionRequest option" where
  "one_or_none rows key =
     (case filter (\<lambda>r. idempotency_key r = key) rows of
        [] \<Rightarrow> Inr None
      | [r] \<Rightarrow> Inr (Some r)
      | _ \<Rightarrow> Inl MultipleResultsFound)"

text \<open>
  \<^verbatim>\<open>session.add(new_req); session.flush()\<close>: the insert fails on a row with the same
  primary key or the same idempotency key (the unique constraint).
\<close>

definition flush_insert :: "ExtractionRequest list \<Rightarrow> ExtractionRequest \<Rightarrow> db_error + ExtractionRequest list" where
  "flush_insert rows new_req =
     (if list_ex (\<lambda>r. id' r = id' new_req \<or> idempotency_key r = idempotency_key new_req) rows
      then Inl IntegrityError
      else Inr (rows @ [new_req]))"

text \<open>The commit of a row that the session loaded and the worker changed.\<close>

definition commit_row :: "ExtractionRequest list \<Rightarrow> ExtractionRequest \<Rightarrow> ExtractionRequest list" where
  "commit_row rows req = map (\<lambda>r. if id' r = id' req then req else r) rows"


section \<open>The worker (worker.py)\<close>

text \<open>
  The state of the process: the table, the queue, and the attempts dictionary of the
  worker. The backend is the string read from the environment, \<open>max_retries\<close> the integer
  read from it; of the time budget only its printed form matters here, for the message
  of the timeout.
\<close>

record system =
  db :: "ExtractionRequest list"
  queue :: "ustr list"
  attempts :: "(ustr \<times> int) list"

record config =
  backend :: ustr
  max_retries :: int
  task_timeout_seconds :: ustr

text \<open>
  What one attempt meets and the program does not decide: what the external backend
  answers (\<open>Inl\<close> when the call or its import raises), whether the thread is still alive
  when the budget is over, and whether the attempt raises an exception of another kind.
\<close>

record attempt_env =
  llm_result :: "ustr + fields"
  timed_out :: bool
  fault :: "ustr option"

fun dict_set :: "'k \<Rightarrow> 'v \<Rightarrow> ('k \<times> 'v) list \<Rightarrow> ('k \<times> 'v) list" where
  "dict_set k v [] = [(k, v)]"
| "dict_set k v (p # ps) = (if fst p = k then (k, v) # ps else p # dict_set k v ps)"

definition dict_get :: "('k \<times> 'v) list \<Rightarrow> 'k \<Rightarrow> 'v \<Rightarrow> 'v" where
  "dict_get d k dflt = (case map_of d k of None \<Rightarrow> dflt | Some v \<Rightarrow> v)"

text \<open>\<^verbatim>\<open>a or b\<close> on values that are \<^verbatim>\<open>None\<close> or a string: the empty string is falsy.\<close>

definition truthy :: "ustr option \<Rightarrow> bool" where
  "truthy a = (a \<noteq> None \<and> a \<noteq> Some [])"

definition py_or :: "ustr option \<Rightarrow> ustr option \<Rightarrow> ustr option" where
  "py_or a b = (if truthy a then a else b)"

definition merge_fields :: "fields \<Rightarrow> fields \<Rightarrow> fields" where
  "merge_fields llm regex_result =
     \<lparr>doc_type = py_or (doc_type llm) (doc_type regex_result),
      invoice_number = py_or (invoice_number llm) (invoice_number regex_result),
      invoice_date = py_or (invoice_date llm) (invoice_date regex_result),
      total_amount = (if total_amount llm \<noteq> None then total_amount llm
                      else total_amount regex_result),
      currency = py_or (currency llm) (currency regex_result)\<rparr>"

definition all_none :: "fields \<Rightarrow> bool" where
  "all_none f =
     (doc_type f = None \<and> invoice_number f = None \<and> invoice_date f = None
      \<and> total_amount f = None \<and> currency f = None)"

text \<open>
  \<open>run_extractor\<close>. An exception inside the \<^verbatim>\<open>try\<close>, of the external call or of the
  regex run that follows it, reaches the \<^verbatim>\<open>except\<close> clause, which runs the regex
  extractor (again).
\<close>

definition run_extractor :: "ustr \<Rightarrow> ustr + fields \<Rightarrow> ustr \<Rightarrow> exn + fields" where
  "run_extractor backend_name llm text =
     (if backend_name = u ''llm'' then
        (case llm of
           Inl import_or_call_err \<Rightarrow> extract_from_text text
         | Inr llm_fields \<Rightarrow>
             (case extract_from_text text of
                Inl ex \<Rightarrow> extract_from_text text
              | Inr regex_result \<Rightarrow>
                  (let merged = merge_fields llm_fields regex_result
                   in if all_none merged then Inr regex_result else Inr merged)))
      else extract_from_text text)"

definition execute_with_timeout :: "config \<Rightarrow> attempt_env \<Rightarrow> exn + fields \<Rightarrow> exn + fields" where
  "execute_with_timeout cfg env func_result =
     (if timed_out env
      then Inl (TimeoutError (u ''Extraction timed out after '' @ task_timeout_seconds cfg
                                @ u '' seconds''))
      else (case fault env of
              Some description \<Rightarrow> Inl (OtherException description)
            | None \<Rightarrow> func_result))"

definition attempt :: "config \<Rightarrow> attempt_env \<Rightarrow> ustr \<Rightarrow> exn + fields" where
  "attempt cfg env text =
     execute_with_timeout cfg env (run_extractor (backend cfg) (llm_result env) text)"

definition mark_completed :: "ExtractionRequest \<Rightarrow> fields \<Rightarrow> ExtractionRequest" where
  "mark_completed req result =
     req\<lparr>doc_type := doc_type result,
         invoice_number := invoice_number result,
         invoice_date := invoice_date result,
         total_amount := total_amount result,
         currency := currency result,
         error_code := None,
         error_message := None,
         status := COMPLETED\<rparr>"

definition mark_failed :: "ExtractionRequest \<Rightarrow> exn \<Rightarrow> ExtractionRequest" where
  "mark_failed req ex =
     (let req1 = req\<lparr>status := FAILED, doc_type := None, invoice_number := None,
                     invoice_date := None, total_amount := None, currency := None\<rparr>
      in case ex of
           TimeoutError msg \<Rightarrow>
             req1\<lparr>error_code := Some (u ''EXTRACTOR_TIMEOUT''), error_message := Some msg\<rparr>
         | ExtractorFailure code message \<Rightarrow>
             req1\<lparr>error_code := Some code, error_message := Some message\<rparr>
         | OtherException description \<Rightarrow>
             req1\<lparr>error_code := Some (u ''EXTRACTOR_ERROR''), error_message := Some description\<rparr>)"

definition enqueue :: "ustr \<Rightarrow> system \<Rightarrow> system" where
  "enqueue request_id sys = sys\<lparr>queue := queue sys @ [request_id]\<rparr>"

definition process_request :: "config \<Rightarrow> attempt_env \<Rightarrow> ustr \<Rightarrow> system \<Rightarrow> system" where
  "process_request cfg env request_id sys =
     (case session_get (db sys) request_id of
        None \<Rightarrow> sys
      | Some req \<Rightarrow>
          if status req \<noteq> PENDING then sys
          else
            (case attempt cfg env (document_text req) of
               Inr result \<Rightarrow> sys\<lparr>db := commit_row (db sys) (mark_completed req result)\<rparr>
             | Inl ex \<Rightarrow>
                 (let n = dict_get (attempts sys) request_id 0 + 1;
                      sys1 = sys\<lparr>attempts := dict_set request_id n (attempts sys)\<rparr>
                  in if n \<le> max_retries cfg then enqueue request_id sys1
                     else sys1\<lparr>db := commit_row (db sys) (mark_failed req ex)\<rparr>)))"



section \<open>The submission gate (main.py)\<close>

datatype ExtractPostResponse = ExtractPostResponse (request_id: ustr) (response_status: status)

definition new_request :: "ustr \<Rightarrow> ustr \<Rightarrow> ustr \<Rightarrow> ExtractionRequest" where
  "new_request req_id key text =
     \<lparr>doc_type = None, invoice_number = None, invoice_date = None, total_amount = None,
      currency = None, id' = req_id, idempotency_key = key, status = PENDING,
      document_text = text, error_code = None, error_message = None\<rparr>"

text \<open>
  \<open>submit_extraction\<close> first looks the key up and answers from the row it finds.
  \<open>submit_insert\<close> is the rest of the handler, from the insert on: a submission that
  loses a race runs it in a state where the key has appeared since its lookup. \<open>req_id\<close>
  is the identifier that \<^verbatim>\<open>_generate_request_id\<close> draws.
\<close>

definition submit_insert ::
    "ustr \<Rightarrow> ustr \<Rightarrow> ustr \<Rightarrow> system \<Rightarrow> (db_error + ExtractPostResponse) \<times> system" where
  "submit_insert req_id key text sys =
     (case flush_insert (db sys) (new_request req_id key text) of
        Inr rows \<Rightarrow>
          (Inr (ExtractPostResponse req_id PENDING), enqueue req_id (sys\<lparr>db := rows\<rparr>))
      | Inl err \<Rightarrow>
          (case one_or_none (db sys) key of
             Inr (Some existing_again) \<Rightarrow>
               (Inr (ExtractPostResponse (id' existing_again) (status existing_again)), sys)
           | Inr None \<Rightarrow> (Inl err, sys)
           | Inl err2 \<Rightarrow> (Inl err2, sys)))"

definition submit_extraction ::
    "ustr \<Rightarrow> ustr \<Rightarrow> ustr \<Rightarrow> system \<Rightarrow> (db_error + ExtractPostResponse) \<times> system" where
  "submit_extraction req_id key text sys =
     (case one_or_none (db sys) key of
        Inl err \<Rightarrow> (Inl err, sys)
      | Inr (Some existing) \<Rightarrow>
          (Inr (ExtractPostResponse (id' existing) (status existing)), sys)
      | Inr None \<Rightarrow> submit_insert req_id key text sys)"


section \<open>Executions\<close>

text \<open>
  What can happen to the process, one step at a time: a submission, the second half of
  a submission whose lookup ran earlier, one turn of the worker loop on the head of the
  queue.
\<close>

datatype action =
    Submit ustr ustr ustr
  | Insert ustr ustr ustr
  | Work attempt_env

definition work :: "config \<Rightarrow> attempt_env \<Rightarrow> system \<Rightarrow> system" where
  "work cfg env sys =
     (case queue sys of
        [] \<Rightarrow> sys
      | head_id # rest \<Rightarrow> process_request cfg env head_id (sys\<lparr>queue := rest\<rparr>))"

fun exec :: "config \<Rightarrow> action \<Rightarrow> system \<Rightarrow> system" where
  "exec cfg (Submit req_id key text) sys = snd (submit_extraction req_id key text sys)"
| "exec cfg (Insert req_id key text) sys = snd (submit_insert req_id key text sys)"
| "exec cfg (Work env) sys = work cfg env sys"

definition run :: "config \<Rightarrow> action list \<Rightarrow> system \<Rightarrow> system" where
  "run cfg acts sys = foldl (\<lambda>s a. exec cfg a s) sys acts"

definition init_system :: system where
  "init_system = \<lparr>db = [], queue = [], attempts = []\<rparr>"

definition results_null :: "ExtractionRequest \<Rightarrow> bool" where
  "results_null r =
     (doc_type r = None \<and> invoice_number r = None \<and> invoice_date r = None
      \<and> total_amount r = None \<and> currency r = None)"

definition errors_null :: "ExtractionRequest \<Rightarrow> bool" where
  "errors_null r = (error_code r = None \<and> error_message r = None)"


section \<open>Configuration, invariants and the merge of the specification\<close>

text \<open>The values the worker takes when the environment sets none.\<close>

definition default_config :: config where
  "default_config = \<lparr>backend = u ''llm'', max_retries = 3, task_timeout_seconds = u ''60.0''\<rparr>"

text \<open>The primary key and the unique constraint on the idempotency key.\<close>

definition db_unique :: "system \<Rightarrow> bool" where
  "db_unique sys = (distinct (map id' (db sys)) \<and> distinct (map idempotency_key (db sys)))"

text \<open>What a row holds in each status.\<close>

definition job_ok :: "ExtractionRequest \<Rightarrow> bool" where
  "job_ok r =
     (case status r of
        PENDING \<Rightarrow> results_null r \<and> errors_null r
      | COMPLETED \<Rightarrow> doc_type r \<noteq> None \<and> errors_null r
      | FAILED \<Rightarrow> results_null r \<and> error_code r \<noteq> None \<and> error_message r \<noteq> None)"

text \<open>
  The merge as the specification words it for claim C8: a field takes the external value
  when that is not null, else the heuristic value. It is compared with \<open>merge_fields\<close>,
  the merge of the source.
\<close>

definition spec_merge :: "fields \<Rightarrow> fields \<Rightarrow> fields" where
  "spec_merge ext heur =
     \<lparr>doc_type = (if doc_type ext \<noteq> None then doc_type ext else doc_type heur),
      invoice_number = (if invoice_number ext \<noteq> None then invoice_number ext else invoice_number heur),
      invoice_date = (if invoice_date ext \<noteq> None then invoice_date ext else invoice_date heur),
      total_amount = (if total_amount ext \<noteq> None then total_amount ext else total_amount heur),
      currency = (if currency ext \<noteq> None then currency ext else currency heur)\<rparr>"


section \<open>Rules for evaluating the model on a given input\<close>

lemma rep_numeral: "rep m lo (numeral k) s =
     concat (map (rep m (lo - 1) (pred_numeral k)) (filter (\<lambda>s'. mpos s < mpos s') (m s)))
     @ (if lo = 0 then [s] else [])"
  by (simp add: numeral_eq_Suc)

lemmas char_class_defs = is_digit_def is_upper_ascii_def is_lower_ascii_def is_alpha_ascii_def is_space_def is_word_def
  is_symbol_def is_token_char_def ci_eq_def lower_ascii_def
lemmas pattern_defs = seqs_def star_def plus_rx_def opt_def times_def lit_def liti_def digit_def space_def
  iso_date_pattern_def month_date_pattern_def total_pattern_def symbol_pattern_def code_pattern_def
  dot_or_comma_def thousands_mark_def number_pattern_def symbol_amount_regex_def amount_regex_def
lemmas engine_defs = re_search_def matches_def group_def group_of_def re_finditer_def at_boundary_def rep_numeral u_def
lemmas string_defs = replace_char_def normalize_text_def rfind_def strip_def upper_def upper_cp_def
lemmas extractor_defs = detect_doc_type_def extract_invoice_number_def invoice_patterns_def token_def colon_or_hash_def
  colon_or_space_def extract_date_iso_def MONTHS_def SUPPORTED_CURRENCY_CODES_def int_of_digits_def
  is_leap_def days_in_month_def datetime_def two_digits_def year_digits_def strftime_ymd_def pyfloat_def
  normalize_number_def currency_of_symbol_def line_code_of_def symbol_amounts_def generic_amounts_def
  candidate_amounts_def add_unique_def has_hint_def candidate_lines_def extract_currency_and_amount_def
  failure_marker_def extract_from_text_def List.map_filter_def Let_def
lemmas evals = char_class_defs pattern_defs engine_defs string_defs extractor_defs

lemmas system_defs = session_get_def one_or_none_def flush_insert_def commit_row_def new_request_def
  submit_insert_def submit_extraction_def work_def process_request_def attempt_def
  execute_with_timeout_def run_extractor_def mark_completed_def mark_failed_def enqueue_def
  dict_get_def init_system_def default_config_def merge_fields_def all_none_def py_or_def truthy_def


section \<open>Substrings\<close>

lemma starts_with_iff: "starts_with n h \<longleftrightarrow> (\<exists>s. h = n @ s)"
  by (induction n h rule: starts_with.induct) auto

lemma contains_iff: "contains n h \<longleftrightarrow> (\<exists>p s. h = p @ n @ s)"
proof (induction h)
  case Nil
  then show ?case by simp
next
  case (Cons x h)
  show ?case
  proof
    assume "contains n (x # h)"
    then consider "starts_with n (x # h)" | "contains n h" by auto
    then show "\<exists>p s. x # h = p @ n @ s"
    proof cases
      case 1
      then obtain s where "x # h = n @ s" by (auto simp: starts_with_iff)
      then have "x # h = [] @ n @ s" by simp
      then show ?thesis by blast
    next
      case 2
      then obtain p s where "h = p @ n @ s" using Cons.IH by blast
      then have "x # h = (x # p) @ n @ s" by simp
      then show ?thesis by blast
    qed
  next
    assume "\<exists>p s. x # h = p @ n @ s"
    then obtain p s where ps: "x # h = p @ n @ s" by blast
    show "contains n (x # h)"
    proof (cases p)
      case Nil
      then have "starts_with n (x # h)" using ps by (auto simp: starts_with_iff)
      then show ?thesis by simp
    next
      case (Cons y p')
      then have "h = p' @ n @ s" using ps by simp
      then have "contains n h" using Cons.IH by blast
      then show ?thesis by simp
    qed
  qed
qed


lemma upper_append: "upper (a @ b) = upper a @ upper b"
  by (simp add: upper_def)

lemma contains_upper: "contains w t \<Longrightarrow> contains (upper w) (upper t)"
  by (auto simp: contains_iff upper_append) blast


section \<open>The store and the steps of the process\<close>

lemma session_get_SomeD: "session_get rows i = Some r \<Longrightarrow> r \<in> set rows \<and> id' r = i"
  by (induction rows) (auto simp: session_get_def split: if_splits)

lemma session_get_append:
  "session_get (rows @ others) i = (case session_get rows i of None \<Rightarrow> session_get others i | Some r \<Rightarrow> Some r)"
  by (induction rows) (auto simp: session_get_def)

lemma session_get_commit_other:
  "id' req \<noteq> i \<Longrightarrow> session_get (commit_row rows req) i = session_get rows i"
  by (induction rows) (auto simp: session_get_def commit_row_def)


lemma map_id_commit_row: "map id' (commit_row rows req) = map id' rows"
  by (induction rows) (auto simp: commit_row_def)

lemma map_key_commit_row:
  assumes "distinct (map id' rows)" "r0 \<in> set rows" "id' req = id' r0"
    "idempotency_key req = idempotency_key r0"
  shows "map idempotency_key (commit_row rows req) = map idempotency_key rows"
proof -
  have "idempotency_key (if id' r = id' req then req else r) = idempotency_key r"
    if "r \<in> set rows" for r
  proof (cases "id' r = id' req")
    case True
    then have "r = r0" using assms that by (auto simp: distinct_map dest: inj_onD)
    then show ?thesis using assms by simp
  next
    case False
    then show ?thesis by simp
  qed
  then show ?thesis by (simp add: commit_row_def)
qed

lemma set_commit_row:
  "r \<in> set (commit_row rows req) \<Longrightarrow> r \<in> set rows \<or> r = req"
  by (auto simp: commit_row_def split: if_splits)

lemma mark_completed_keeps [simp]:
  "id' (mark_completed req res) = id' req"
  "idempotency_key (mark_completed req res) = idempotency_key req"
  "document_text (mark_completed req res) = document_text req"
  by (simp_all add: mark_completed_def)

lemma mark_failed_keeps [simp]:
  "id' (mark_failed req ex) = id' req"
  "idempotency_key (mark_failed req ex) = idempotency_key req"
  "document_text (mark_failed req ex) = document_text req"
  "status (mark_failed req ex) = FAILED"
  by (cases ex; simp add: mark_failed_def)+

lemma process_request_ids: "map id' (db (process_request cfg env i s)) = map id' (db s)"
  by (auto simp: process_request_def Let_def enqueue_def map_id_commit_row
      split: option.splits sum.splits)

lemma process_request_keys:
  assumes "distinct (map id' (db s))"
  shows "map idempotency_key (db (process_request cfg env i s)) = map idempotency_key (db s)"
proof (cases "session_get (db s) i")
  case None
  then show ?thesis by (simp add: process_request_def)
next
  case (Some req)
  then have "req \<in> set (db s)" by (simp add: session_get_SomeD)
  then have "map idempotency_key (commit_row (db s) (mark_completed req res)) = map idempotency_key (db s)"
    and "map idempotency_key (commit_row (db s) (mark_failed req ex)) = map idempotency_key (db s)"
    for res ex
    using assms by (simp_all add: map_key_commit_row [where ?r0.0 = req])
  then show ?thesis using Some
    by (auto simp: process_request_def Let_def enqueue_def split: sum.splits)
qed

lemma process_request_unique: "db_unique s \<Longrightarrow> db_unique (process_request cfg env i s)"
  by (simp add: db_unique_def process_request_ids process_request_keys)

lemma flush_insert_Inr:
  "flush_insert rows new = Inr rows' \<Longrightarrow>
     rows' = rows @ [new] \<and> id' new \<notin> id' ` set rows \<and> idempotency_key new \<notin> idempotency_key ` set rows"
  by (auto simp: flush_insert_def list_ex_iff split: if_splits)

lemma new_request_sel [simp]:
  "id' (new_request i k t) = i" "idempotency_key (new_request i k t) = k"
  "status (new_request i k t) = PENDING" "document_text (new_request i k t) = t"
  by (simp_all add: new_request_def)

lemma submit_insert_cases:
  "submit_insert i k t s = (res, s') \<Longrightarrow>
     (s' = s) \<or> (res = Inr (ExtractPostResponse i PENDING)
        \<and> db s' = db s @ [new_request i k t] \<and> queue s' = queue s @ [i] \<and> attempts s' = attempts s
        \<and> i \<notin> id' ` set (db s) \<and> k \<notin> idempotency_key ` set (db s))"
  by (auto simp: submit_insert_def enqueue_def split: sum.splits option.splits dest!: flush_insert_Inr)

lemma submit_extraction_cases:
  "submit_extraction i k t s = (res, s') \<Longrightarrow>
     (s' = s) \<or> (res = Inr (ExtractPostResponse i PENDING)
        \<and> db s' = db s @ [new_request i k t] \<and> queue s' = queue s @ [i] \<and> attempts s' = attempts s
        \<and> i \<notin> id' ` set (db s) \<and> k \<notin> idempotency_key ` set (db s))"
  by (auto simp: submit_extraction_def split: sum.splits option.splits dest: submit_insert_cases)

lemma db_unique_append:
  "db_unique s \<Longrightarrow> db s' = db s @ [new] \<Longrightarrow> id' new \<notin> id' ` set (db s) \<Longrightarrow>
   idempotency_key new \<notin> idempotency_key ` set (db s) \<Longrightarrow> db_unique s'"
  by (auto simp: db_unique_def)

lemma submit_insert_unique: "db_unique s \<Longrightarrow> db_unique (snd (submit_insert i k t s))"
  using submit_insert_cases [of i k t s "fst (submit_insert i k t s)" "snd (submit_insert i k t s)"]
  by (auto intro: db_unique_append [where new = "new_request i k t"])

lemma submit_extraction_unique: "db_unique s \<Longrightarrow> db_unique (snd (submit_extraction i k t s))"
  using submit_extraction_cases [of i k t s "fst (submit_extraction i k t s)" "snd (submit_extraction i k t s)"]
  by (auto intro: db_unique_append [where new = "new_request i k t"])

lemma db_unique_queue [simp]: "db_unique (s\<lparr>queue := q\<rparr>) = db_unique s"
  by (simp add: db_unique_def)

lemma work_unique: "db_unique s \<Longrightarrow> db_unique (work cfg env s)"
  by (auto simp: work_def process_request_unique split: list.splits)

lemma exec_unique: "db_unique s \<Longrightarrow> db_unique (exec cfg a s)"
  by (cases a) (simp_all add: submit_insert_unique submit_extraction_unique work_unique)

lemma run_Nil [simp]: "run cfg [] s = s"
  by (simp add: run_def)

lemma run_Cons [simp]: "run cfg (a # acts) s = run cfg acts (exec cfg a s)"
  by (simp add: run_def)

lemma run_append: "run cfg (as @ bs) s = run cfg bs (run cfg as s)"
  by (simp add: run_def)

lemma run_unique: "db_unique s \<Longrightarrow> db_unique (run cfg acts s)"
  by (induction acts arbitrary: s) (simp_all add: exec_unique)

lemma init_unique: "db_unique init_system"
  by (simp add: db_unique_def init_system_def)


section \<open>Two evaluations used by the examples\<close>

lemma extract_total_5:
  "extract_from_text (u ''Total 5'')
     = Inr \<lparr>doc_type = Some (u ''unknown''), invoice_number = None, invoice_date = None,
            total_amount = Some 5, currency = None\<rparr>"
  by (simp add: evals)

lemma run_submit_work:
  "run default_config
     [Submit (u ''req_1'') (u ''k1'') (u ''Total 5''),
      Work \<lparr>llm_result = Inl [], timed_out = False, fault = None\<rparr>]
     init_system
   = \<lparr>db = [\<lparr>doc_type = Some (u ''unknown''), invoice_number = None, invoice_date = None,
             total_amount = Some 5, currency = None, id' = u ''req_1'', idempotency_key = u ''k1'',
             status = COMPLETED, document_text = u ''Total 5'', error_code = None,
             error_message = None\<rparr>],
      queue = [], attempts = []\<rparr>"
  by (simp add: system_defs extract_total_5)


section \<open>The submission gate is idempotent\<close>

lemma filter_key_unique:
  "distinct (map f xs) \<Longrightarrow> x \<in> set xs \<Longrightarrow> filter (\<lambda>y. f y = f x) xs = [x]"
proof (induction xs)
  case Nil
  then show ?case by simp
next
  case (Cons a xs)
  show ?case
  proof (cases "a = x")
    case True
    then have "\<forall>y\<in>set xs. f y \<noteq> f x" using Cons.prems by (auto simp: image_iff)
    then have "filter (\<lambda>y. f y = f x) xs = []" by (simp add: filter_empty_conv)
    then show ?thesis using True by simp
  next
    case False
    then have "x \<in> set xs" using Cons.prems by simp
    moreover have "f a \<noteq> f x" using Cons.prems \<open>x \<in> set xs\<close> by auto
    ultimately show ?thesis using Cons by simp
  qed
qed

lemma one_or_none_unique:
  "db_unique s \<Longrightarrow> r \<in> set (db s) \<Longrightarrow> one_or_none (db s) (idempotency_key r) = Inr (Some r)"
  by (simp add: one_or_none_def db_unique_def filter_key_unique)

lemma one_or_none_SomeD:
  "one_or_none rows k = Inr (Some r) \<Longrightarrow> r \<in> set rows \<and> idempotency_key r = k"
proof -
  assume a: "one_or_none rows k = Inr (Some r)"
  then have "filter (\<lambda>r. idempotency_key r = k) rows = [r]"
    by (auto simp: one_or_none_def split: list.splits)
  then have "r \<in> set (filter (\<lambda>r. idempotency_key r = k) rows)" by simp
  then show ?thesis by simp
qed

lemma idempotent_hit:
  assumes "db_unique s" "r \<in> set (db s)"
  shows "submit_extraction i (idempotency_key r) t s = (Inr (ExtractPostResponse (id' r) (status r)), s)"
    and "submit_insert i (idempotency_key r) t s = (Inr (ExtractPostResponse (id' r) (status r)), s)"
proof -
  have q: "one_or_none (db s) (idempotency_key r) = Inr (Some r)"
    using assms by (rule one_or_none_unique)
  show "submit_extraction i (idempotency_key r) t s = (Inr (ExtractPostResponse (id' r) (status r)), s)"
    by (simp add: submit_extraction_def q)
  have "flush_insert (db s) (new_request i (idempotency_key r) t) = Inl IntegrityError"
    using assms(2) by (auto simp: flush_insert_def list_ex_iff)
  then show "submit_insert i (idempotency_key r) t s = (Inr (ExtractPostResponse (id' r) (status r)), s)"
    by (simp add: submit_insert_def q)
qed

lemma submit_insert_row:
  assumes "submit_insert i k t s = (Inr resp, s1)"
  shows "(\<exists>r\<in>set (db s1). id' r = request_id resp \<and> idempotency_key r = k)
       \<and> (s1 = s \<or> (db s1 = db s @ [new_request i k t] \<and> queue s1 = queue s @ [i]
                      \<and> resp = ExtractPostResponse i PENDING))"
proof (cases "flush_insert (db s) (new_request i k t)")
  case (Inr rows)
  then have "rows = db s @ [new_request i k t]" by (auto dest: flush_insert_Inr)
  then show ?thesis using assms Inr by (auto simp: submit_insert_def enqueue_def)
next
  case (Inl err)
  then show ?thesis using assms
    by (auto simp: submit_insert_def split: sum.splits option.splits dest: one_or_none_SomeD)
qed

lemma submit_extraction_row:
  assumes "submit_extraction i k t s = (Inr resp, s1)"
  shows "(\<exists>r\<in>set (db s1). id' r = request_id resp \<and> idempotency_key r = k)
       \<and> (s1 = s \<or> (db s1 = db s @ [new_request i k t] \<and> queue s1 = queue s @ [i]
                      \<and> resp = ExtractPostResponse i PENDING))"
proof (cases "one_or_none (db s) k")
  case (Inl err)
  then show ?thesis using assms by (simp add: submit_extraction_def)
next
  case (Inr found)
  show ?thesis
  proof (cases found)
    case None
    then show ?thesis using assms Inr submit_insert_row [of i k t s resp s1]
      by (simp add: submit_extraction_def)
  next
    case (Some existing)
    then show ?thesis using assms Inr by (auto simp: submit_extraction_def dest: one_or_none_SomeD)
  qed
qed

lemma process_request_sticky:
  assumes "db_unique s" "session_get (db s) i = Some r" "status r \<noteq> PENDING"
  shows "session_get (db (process_request cfg env j s)) i = Some r"
proof (cases "session_get (db s) j")
  case None
  then show ?thesis using assms by (simp add: process_request_def)
next
  case (Some req)
  show ?thesis
  proof (cases "status req = PENDING")
    case False
    then show ?thesis using Some assms by (simp add: process_request_def)
  next
    case True
    then have "i \<noteq> j" using Some assms by auto
    moreover have "id' req = j" using Some by (simp add: session_get_SomeD)
    ultimately show ?thesis using Some assms True
      by (auto simp: process_request_def Let_def enqueue_def session_get_commit_other
          split: sum.splits)
  qed
qed

lemma process_request_keeps_job:
  assumes "session_get (db s) i = Some r"
  shows "\<exists>r'. session_get (db (process_request cfg env j s)) i = Some r'"
proof -
  have "i \<in> set (map id' (db s))" using assms session_get_SomeD by fastforce
  then have "i \<in> set (map id' (db (process_request cfg env j s)))"
    by (simp only: process_request_ids)
  then show ?thesis
    by (cases "session_get (db (process_request cfg env j s)) i")
       (auto simp: session_get_def find_None_iff)
qed

lemma exec_db_cases:
  "db (exec cfg a s) = db s \<or> (\<exists>new. db (exec cfg a s) = db s @ [new])
     \<or> (\<exists>env j. db (exec cfg a s) = db (process_request cfg env j (s\<lparr>queue := tl (queue s)\<rparr>)))"
proof (cases a)
  case (Submit i k t)
  then show ?thesis
    using submit_extraction_cases [of i k t s "fst (submit_extraction i k t s)" "snd (submit_extraction i k t s)"]
    by auto
next
  case (Insert i k t)
  then show ?thesis
    using submit_insert_cases [of i k t s "fst (submit_insert i k t s)" "snd (submit_insert i k t s)"]
    by auto
next
  case (Work env)
  then show ?thesis by (auto simp: work_def split: list.splits)
qed

lemma same_maps_pair:
  assumes "map f ys = map f xs" "map g ys = map g xs" "x \<in> set xs"
  shows "\<exists>y\<in>set ys. f y = f x \<and> g y = g x"
proof -
  obtain n where n: "n < length xs" "xs ! n = x" using assms(3) by (auto simp: in_set_conv_nth)
  have l: "length ys = length xs" using assms(1) by (metis length_map)
  have "f (ys ! n) = f x" using n l assms(1) by (metis nth_map)
  moreover have "g (ys ! n) = g x" using n l assms(2) by (metis nth_map)
  ultimately show ?thesis using n l by (metis nth_mem)
qed

lemma exec_keeps_pair:
  assumes "db_unique s" "r \<in> set (db s)"
  shows "\<exists>r'\<in>set (db (exec cfg a s)). id' r' = id' r \<and> idempotency_key r' = idempotency_key r"
  using exec_db_cases [of cfg a s]
proof (elim disjE exE)
  assume "db (exec cfg a s) = db s"
  then show ?thesis using assms by auto
next
  fix new assume "db (exec cfg a s) = db s @ [new]"
  then show ?thesis using assms by auto
next
  fix env j
  let ?s = "s\<lparr>queue := tl (queue s)\<rparr>"
  assume e: "db (exec cfg a s) = db (process_request cfg env j ?s)"
  have "map id' (db (process_request cfg env j ?s)) = map id' (db s)"
    by (simp add: process_request_ids)
  moreover have "map idempotency_key (db (process_request cfg env j ?s)) = map idempotency_key (db s)"
    using assms(1) process_request_keys [of ?s cfg env j] by (simp add: db_unique_def)
  ultimately show ?thesis using e assms(2) same_maps_pair [of id' _ "db s" idempotency_key r]
    by simp
qed

lemma run_keeps_pair:
  "db_unique s \<Longrightarrow> r \<in> set (db s) \<Longrightarrow>
   \<exists>r'\<in>set (db (run cfg acts s)). id' r' = id' r \<and> idempotency_key r' = idempotency_key r"
proof (induction acts arbitrary: s r)
  case Nil
  then show ?case by auto
next
  case (Cons a acts)
  from exec_keeps_pair [OF Cons.prems, of cfg a] obtain r1 where
    r1: "r1 \<in> set (db (exec cfg a s))" "id' r1 = id' r" "idempotency_key r1 = idempotency_key r"
    by blast
  have "db_unique (exec cfg a s)" using Cons.prems(1) by (rule exec_unique)
  from Cons.IH [OF this r1(1)] r1 show ?case by auto
qed

text \<open>
  C1. A first submission of a key has returned \<open>resp1\<close>, in any reachable state and on
  either path (the whole handler, or the part of it from the insert on). After any
  further steps of the process, the key is held by exactly one job, whose id is the one
  that was returned. A second submission of the key, whether it runs the whole handler
  or only the part from the insert on (its lookup ran before the job appeared, and its
  insert meets the unique constraint), answers with that id and the status the job has
  now, and leaves the table, the queue and the attempts as they are. The first
  submission either changed nothing, or added that one job and put its id on the queue
  once.
\<close>

theorem idempotent_submission:
  assumes "s = run cfg acts0 init_system"
    and "submit_extraction rid1 key text1 s = (Inr resp1, s1)
         \<or> submit_insert rid1 key text1 s = (Inr resp1, s1)"
    and "s2 = run cfg acts1 s1"
  shows "\<exists>job. one_or_none (db s2) key = Inr (Some job)
           \<and> id' job = request_id resp1
           \<and> submit_extraction rid2 key text2 s2
               = (Inr (ExtractPostResponse (request_id resp1) (status job)), s2)
           \<and> submit_insert rid2 key text2 s2
               = (Inr (ExtractPostResponse (request_id resp1) (status job)), s2)
           \<and> length (filter (\<lambda>r. idempotency_key r = key) (db s2)) = 1
           \<and> (s1 = s \<or> (db s1 = db s @ [new_request rid1 key text1]
                           \<and> queue s1 = queue s @ [rid1]
                           \<and> resp1 = ExtractPostResponse rid1 PENDING))"
proof -
  have u: "db_unique s" using assms(1) by (simp add: run_unique init_unique)
  have row: "(\<exists>r\<in>set (db s1). id' r = request_id resp1 \<and> idempotency_key r = key)
       \<and> (s1 = s \<or> (db s1 = db s @ [new_request rid1 key text1] \<and> queue s1 = queue s @ [rid1]
                      \<and> resp1 = ExtractPostResponse rid1 PENDING))"
    using assms(2) submit_extraction_row submit_insert_row by blast
  have u1: "db_unique s1"
    using assms(2) u submit_extraction_unique [of s rid1 key text1] submit_insert_unique [of s rid1 key text1]
    by auto
  from row obtain r where r: "r \<in> set (db s1)" "id' r = request_id resp1" "idempotency_key r = key"
    by blast
  have u2: "db_unique s2" using u1 assms(3) by (simp add: run_unique)
  from run_keeps_pair [OF u1 r(1), of cfg acts1] obtain job where
    job: "job \<in> set (db s2)" "id' job = id' r" "idempotency_key job = idempotency_key r"
    using assms(3) by blast
  have k: "idempotency_key job = key" using job r by simp
  have q: "one_or_none (db s2) key = Inr (Some job)"
    using one_or_none_unique [OF u2 job(1)] k by simp
  have f: "filter (\<lambda>r. idempotency_key r = key) (db s2) = [job]"
    using filter_key_unique [of idempotency_key "db s2" job] u2 job(1) k by (simp add: db_unique_def)
  have h1: "submit_extraction rid2 key text2 s2
      = (Inr (ExtractPostResponse (request_id resp1) (status job)), s2)"
    using idempotent_hit(1) [OF u2 job(1), of rid2 text2] k job r by simp
  have h2: "submit_insert rid2 key text2 s2
      = (Inr (ExtractPostResponse (request_id resp1) (status job)), s2)"
    using idempotent_hit(2) [OF u2 job(1), of rid2 text2] k job r by simp
  show ?thesis using q h1 h2 f job r row by auto
qed

theorem idempotent_submission_witness:
  "\<exists>st. submit_extraction (u ''req_2'') (u ''k1'') (u ''Total 6'')
           (run default_config [Work \<lparr>llm_result = Inl [], timed_out = True, fault = None\<rparr>]
              \<lparr>db = [new_request (u ''req_1'') (u ''k1'') (u ''Total 5'')], queue = [u ''req_1''],
               attempts = []\<rparr>)
         = (Inr (ExtractPostResponse (u ''req_1'') st),
            run default_config [Work \<lparr>llm_result = Inl [], timed_out = True, fault = None\<rparr>]
              \<lparr>db = [new_request (u ''req_1'') (u ''k1'') (u ''Total 5'')], queue = [u ''req_1''],
               attempts = []\<rparr>)"
proof -
  let ?s1 = "\<lparr>db = [new_request (u ''req_1'') (u ''k1'') (u ''Total 5'')], queue = [u ''req_1''],
               attempts = []\<rparr>"
  let ?s2 = "run default_config [Work \<lparr>llm_result = Inl [], timed_out = True, fault = None\<rparr>] ?s1"
  have h1: "init_system = run default_config [] init_system" by simp
  have "submit_extraction (u ''req_1'') (u ''k1'') (u ''Total 5'') init_system
      = (Inr (ExtractPostResponse (u ''req_1'') PENDING), ?s1)"
    by (simp add: submit_extraction_def submit_insert_def one_or_none_def flush_insert_def
        enqueue_def init_system_def)
  then have h2: "submit_extraction (u ''req_1'') (u ''k1'') (u ''Total 5'') init_system
      = (Inr (ExtractPostResponse (u ''req_1'') PENDING), ?s1)
    \<or> submit_insert (u ''req_1'') (u ''k1'') (u ''Total 5'') init_system
      = (Inr (ExtractPostResponse (u ''req_1'') PENDING), ?s1)"
    by (rule disjI1)
  have h3: "?s2 = run default_config [Work \<lparr>llm_result = Inl [], timed_out = True, fault = None\<rparr>] ?s1"
    by (rule refl)
  from idempotent_submission [OF h1 h2 h3, where ?rid2.0 = "u ''req_2''" and ?text2.0 = "u ''Total 6''"]
  show ?thesis by (elim exE conjE) auto
qed


section \<open>The retry bound\<close>

lemma dict_get_set [simp]: "dict_get (dict_set k v d) k dflt = v"
  by (induction d) (auto simp: dict_get_def)








section \<open>Result and error fields\<close>

lemma extract_from_text_doc_type:
  "extract_from_text t = Inr f \<Longrightarrow> doc_type f \<noteq> None"
  by (auto simp: extract_from_text_def split: if_splits prod.splits)

lemma run_extractor_doc_type:
  "run_extractor b l t = Inr f \<Longrightarrow> doc_type f \<noteq> None"
  by (auto simp: run_extractor_def Let_def merge_fields_def py_or_def truthy_def
      split: if_splits sum.splits dest: extract_from_text_doc_type)

lemma attempt_doc_type: "attempt cfg env t = Inr f \<Longrightarrow> doc_type f \<noteq> None"
  by (auto simp: attempt_def execute_with_timeout_def split: if_splits option.splits
      dest: run_extractor_doc_type)

lemma job_ok_completed:
  "attempt cfg env t = Inr res \<Longrightarrow> job_ok (mark_completed req res)"
  by (drule attempt_doc_type) (simp add: job_ok_def mark_completed_def errors_null_def)

lemma job_ok_failed: "job_ok (mark_failed req ex)"
  by (cases ex) (simp_all add: job_ok_def mark_failed_def results_null_def)

lemma job_ok_new: "job_ok (new_request i k t)"
  by (simp add: job_ok_def new_request_def results_null_def errors_null_def)

lemma process_request_ok:
  assumes "\<forall>r\<in>set (db s). job_ok r"
  shows "\<forall>r\<in>set (db (process_request cfg env j s)). job_ok r"
  using assms
  by (auto simp: process_request_def Let_def enqueue_def split: option.splits sum.splits
      dest!: set_commit_row intro: job_ok_failed job_ok_completed)

lemma exec_ok:
  assumes "\<forall>r\<in>set (db s). job_ok r"
  shows "\<forall>r\<in>set (db (exec cfg a s)). job_ok r"
proof (cases a)
  case (Submit i k t)
  then show ?thesis
    using assms submit_extraction_cases [of i k t s "fst (submit_extraction i k t s)" "snd (submit_extraction i k t s)"]
    by (auto simp: job_ok_new)
next
  case (Insert i k t)
  then show ?thesis
    using assms submit_insert_cases [of i k t s "fst (submit_insert i k t s)" "snd (submit_insert i k t s)"]
    by (auto simp: job_ok_new)
next
  case (Work env)
  then show ?thesis using assms process_request_ok [of "s\<lparr>queue := tl (queue s)\<rparr>" cfg env]
    by (auto simp: work_def split: list.splits)
qed

lemma run_ok:
  "\<forall>r\<in>set (db s). job_ok r \<Longrightarrow> \<forall>r\<in>set (db (run cfg acts s)). job_ok r"
proof (induction acts arbitrary: s)
  case Nil
  then show ?case by simp
next
  case (Cons a acts)
  have "\<forall>r\<in>set (db (exec cfg a s)). job_ok r" by (rule exec_ok) (rule Cons.prems)
  from Cons.IH [OF this] show ?case by simp
qed

text \<open>
  C3, as amended. In every job of every reachable state: while \<open>PENDING\<close> the result fields
  and the error fields are all null; once \<open>COMPLETED\<close> the error fields are all null and
  the result fields are not (the document type is set); once \<open>FAILED\<close> the result fields
  are all null and both error fields are set.
\<close>

theorem result_error_exclusive:
  assumes "r \<in> set (db (run cfg acts init_system))"
  shows "(case status r of
            PENDING \<Rightarrow> results_null r \<and> errors_null r
          | COMPLETED \<Rightarrow> \<not> results_null r \<and> errors_null r
          | FAILED \<Rightarrow> results_null r \<and> \<not> errors_null r \<and> error_code r \<noteq> None
                        \<and> error_message r \<noteq> None)"
proof -
  have "\<forall>r\<in>set (db (run cfg acts init_system)). job_ok r"
    by (rule run_ok) (simp add: init_system_def)
  then have "job_ok r" using assms by blast
  then show ?thesis
    by (cases "status r") (auto simp: job_ok_def results_null_def errors_null_def)
qed

theorem result_error_exclusive_witness:
  "\<lparr>doc_type = Some (u ''unknown''), invoice_number = None, invoice_date = None,
    total_amount = Some 5, currency = None, id' = u ''req_1'', idempotency_key = u ''k1'',
    status = COMPLETED, document_text = u ''Total 5'', error_code = None,
    error_message = None\<rparr>
     \<in> set (db (run default_config
                  [Submit (u ''req_1'') (u ''k1'') (u ''Total 5''),
                   Work \<lparr>llm_result = Inl [], timed_out = False, fault = None\<rparr>]
                  init_system))
   \<and> \<not> results_null
         \<lparr>doc_type = Some (u ''unknown''), invoice_number = None, invoice_date = None,
          total_amount = Some 5, currency = None, id' = u ''req_1'', idempotency_key = u ''k1'',
          status = COMPLETED, document_text = u ''Total 5'', error_code = None,
          error_message = None\<rparr>
   \<and> errors_null
         \<lparr>doc_type = Some (u ''unknown''), invoice_number = None, invoice_date = None,
          total_amount = Some 5, currency = None, id' = u ''req_1'', idempotency_key = u ''k1'',
          status = COMPLETED, document_text = u ''Total 5'', error_code = None,
          error_message = None\<rparr>"
proof -
  let ?r0 = "\<lparr>doc_type = Some (u ''unknown''), invoice_number = None, invoice_date = None,
           total_amount = Some 5, currency = None, id' = u ''req_1'', idempotency_key = u ''k1'',
           status = COMPLETED, document_text = u ''Total 5'', error_code = None,
           error_message = None\<rparr>"
  have m: "?r0 \<in> set (db (run default_config
                  [Submit (u ''req_1'') (u ''k1'') (u ''Total 5''),
                   Work \<lparr>llm_result = Inl [], timed_out = False, fault = None\<rparr>]
                  init_system))"
    unfolding run_submit_work by simp
  from result_error_exclusive [OF m] m show ?thesis by simp
qed

theorem result_error_exclusive_counterexample:
  "new_request (u ''req_1'') (u ''k1'') (u ''Total 5'')
     \<in> set (db (run default_config [Submit (u ''req_1'') (u ''k1'') (u ''Total 5'')] init_system))
   \<and> \<not> (results_null (new_request (u ''req_1'') (u ''k1'') (u ''Total 5''))
          \<noteq> errors_null (new_request (u ''req_1'') (u ''k1'') (u ''Total 5'')))"
  by (simp add: system_defs results_null_def errors_null_def)


section \<open>The status never goes back\<close>

lemma exec_sticky:
  assumes "db_unique s" "session_get (db s) i = Some r" "status r \<noteq> PENDING"
  shows "session_get (db (exec cfg a s)) i = Some r"
  using exec_db_cases [of cfg a s]
proof (elim disjE exE)
  assume "db (exec cfg a s) = db s"
  then show ?thesis using assms by simp
next
  fix new assume "db (exec cfg a s) = db s @ [new]"
  then show ?thesis using assms by (simp add: session_get_append)
next
  fix env j assume e: "db (exec cfg a s) = db (process_request cfg env j (s\<lparr>queue := tl (queue s)\<rparr>))"
  have "session_get (db (process_request cfg env j (s\<lparr>queue := tl (queue s)\<rparr>))) i = Some r"
    by (rule process_request_sticky) (use assms in simp_all)
  then show ?thesis using e by simp
qed

lemma exec_keeps_job:
  assumes "session_get (db s) i = Some r"
  shows "\<exists>r'. session_get (db (exec cfg a s)) i = Some r'"
  using exec_db_cases [of cfg a s]
proof (elim disjE exE)
  assume "db (exec cfg a s) = db s"
  then show ?thesis using assms by simp
next
  fix new assume "db (exec cfg a s) = db s @ [new]"
  then show ?thesis using assms by (simp add: session_get_append)
next
  fix env j assume e: "db (exec cfg a s) = db (process_request cfg env j (s\<lparr>queue := tl (queue s)\<rparr>))"
  have "\<exists>r'. session_get (db (process_request cfg env j (s\<lparr>queue := tl (queue s)\<rparr>))) i = Some r'"
    by (rule process_request_keeps_job [where r = r]) (use assms in simp)
  then show ?thesis using e by simp
qed

lemma run_sticky:
  "db_unique s \<Longrightarrow> session_get (db s) i = Some r \<Longrightarrow> status r \<noteq> PENDING \<Longrightarrow>
   session_get (db (run cfg acts s)) i = Some r"
  by (induction acts arbitrary: s) (simp_all add: exec_sticky exec_unique)

lemma run_keeps_job:
  "session_get (db s) i = Some r \<Longrightarrow> \<exists>r'. session_get (db (run cfg acts s)) i = Some r'"
proof (induction acts arbitrary: s r)
  case Nil
  then show ?case by simp
next
  case (Cons a acts)
  from exec_keeps_job [OF Cons.prems] obtain r' where "session_get (db (exec cfg a s)) i = Some r'"
    by blast
  from Cons.IH [OF this] show ?case by simp
qed

text \<open>
  C4. A job of a reachable state is still there after any further steps, with the
  status it had unless that was \<open>PENDING\<close>. A job that is not pending stays as it is,
  field by field, and processing its id changes nothing in the state; neither does
  processing an id that no job has.
\<close>

theorem status_never_regresses:
  assumes "s = run cfg acts0 init_system" and "session_get (db s) i = Some r0"
  shows "(\<exists>r1. session_get (db (run cfg acts1 s)) i = Some r1
            \<and> (status r1 = status r0 \<or> status r0 = PENDING))
       \<and> (status r0 \<noteq> PENDING \<longrightarrow>
            session_get (db (run cfg acts1 s)) i = Some r0 \<and> process_request cfg env i s = s)
       \<and> (session_get (db s) j = None \<longrightarrow> process_request cfg env j s = s)"
proof -
  have u: "db_unique s" using assms(1) by (simp add: run_unique init_unique)
  obtain r1 where r1: "session_get (db (run cfg acts1 s)) i = Some r1"
    using run_keeps_job [OF assms(2)] by blast
  have st: "session_get (db (run cfg acts1 s)) i = Some r0" if "status r0 \<noteq> PENDING"
    using run_sticky [OF u assms(2) that] .
  have a: "status r1 = status r0 \<or> status r0 = PENDING"
    using r1 st by (cases "status r0 = PENDING") auto
  have b: "process_request cfg env i s = s" if "status r0 \<noteq> PENDING"
    using assms(2) that by (simp add: process_request_def)
  have c: "process_request cfg env j s = s" if "session_get (db s) j = None"
    using that by (simp add: process_request_def)
  show ?thesis using r1 a st b c by blast
qed

theorem status_never_regresses_witness:
  "session_get
     (db (run default_config
            [Work \<lparr>llm_result = Inl [], timed_out = False, fault = None\<rparr>,
             Submit (u ''req_2'') (u ''k1'') (u ''Total 6'')]
            (run default_config
               [Submit (u ''req_1'') (u ''k1'') (u ''Total 5''),
                Work \<lparr>llm_result = Inl [], timed_out = False, fault = None\<rparr>]
               init_system)))
     (u ''req_1'')
   = Some \<lparr>doc_type = Some (u ''unknown''), invoice_number = None, invoice_date = None,
           total_amount = Some 5, currency = None, id' = u ''req_1'', idempotency_key = u ''k1'',
           status = COMPLETED, document_text = u ''Total 5'', error_code = None,
           error_message = None\<rparr>
   \<and> process_request default_config \<lparr>llm_result = Inl [], timed_out = True, fault = None\<rparr>
       (u ''req_1'')
       (run default_config
          [Submit (u ''req_1'') (u ''k1'') (u ''Total 5''),
           Work \<lparr>llm_result = Inl [], timed_out = False, fault = None\<rparr>]
          init_system)
     = run default_config
          [Submit (u ''req_1'') (u ''k1'') (u ''Total 5''),
           Work \<lparr>llm_result = Inl [], timed_out = False, fault = None\<rparr>]
          init_system
   \<and> process_request default_config \<lparr>llm_result = Inl [], timed_out = True, fault = None\<rparr>
       (u ''req_9'')
       (run default_config
          [Submit (u ''req_1'') (u ''k1'') (u ''Total 5''),
           Work \<lparr>llm_result = Inl [], timed_out = False, fault = None\<rparr>]
          init_system)
     = run default_config
          [Submit (u ''req_1'') (u ''k1'') (u ''Total 5''),
           Work \<lparr>llm_result = Inl [], timed_out = False, fault = None\<rparr>]
          init_system"
proof -
  let ?r0 = "\<lparr>doc_type = Some (u ''unknown''), invoice_number = None, invoice_date = None,
           total_amount = Some 5, currency = None, id' = u ''req_1'', idempotency_key = u ''k1'',
           status = COMPLETED, document_text = u ''Total 5'', error_code = None,
           error_message = None\<rparr>"
  let ?s = "run default_config
          [Submit (u ''req_1'') (u ''k1'') (u ''Total 5''),
           Work \<lparr>llm_result = Inl [], timed_out = False, fault = None\<rparr>]
          init_system"
  have h1: "?s = run default_config
          [Submit (u ''req_1'') (u ''k1'') (u ''Total 5''),
           Work \<lparr>llm_result = Inl [], timed_out = False, fault = None\<rparr>]
          init_system"
    by (rule refl)
  have h2: "session_get (db ?s) (u ''req_1'') = Some ?r0"
    unfolding run_submit_work by (simp add: session_get_def)
  have ne: "u ''req_1'' \<noteq> u ''req_9''" by (simp add: u_def)
  have h3: "session_get (db ?s) (u ''req_9'') = None"
    unfolding run_submit_work by (simp add: session_get_def ne)
  have h4: "status ?r0 \<noteq> PENDING" by simp
  from status_never_regresses [OF h1 h2] h3 h4 show ?thesis by blast
qed


section \<open>Dates\<close>

text \<open>
  C5. The text \<^verbatim>\<open>Date: 2024-02-30\<close> holds one date pattern, of a day that does not exist
  (\<open>datetime\<close> rejects it). \<open>extract_date_iso\<close> returns it as the date, where the month
  name form of the same day yields no date.
\<close>

theorem iso_date_not_validated:
  "extract_date_iso (u ''Date: 2024-02-30'') = Some (u ''2024-02-30'')
   \<and> datetime 2024 2 30 = None
   \<and> extract_date_iso (u ''February 30, 2024'') = None"
  by (simp add: evals)


section \<open>The failure marker\<close>

text \<open>
  C6. \<open>extract_from_text\<close> fails exactly when the text contains the marker, always with
  the code \<open>EXTRACTOR_TIMEOUT\<close> and the same message; on every other text it returns
  fields. Containing the marker means that the text is the marker between two strings.
\<close>

theorem sentinel_failure:
  "(extract_from_text t = Inl e
      \<longleftrightarrow> contains failure_marker t
          \<and> e = ExtractorFailure (u ''EXTRACTOR_TIMEOUT'')
                  (u ''Extraction process timed out after 30 seconds''))
   \<and> ((\<exists>f. extract_from_text t = Inr f) \<longleftrightarrow> \<not> contains failure_marker t)
   \<and> (contains failure_marker t \<longleftrightarrow> (\<exists>pre post. t = pre @ failure_marker @ post))"
  by (auto simp: extract_from_text_def contains_iff split: prod.splits)

theorem sentinel_failure_witness:
  "extract_from_text (u ''a<<TRIGGER_EXTRACTOR_FAILURE>>'')
     = Inl (ExtractorFailure (u ''EXTRACTOR_TIMEOUT'')
              (u ''Extraction process timed out after 30 seconds''))
   \<and> (\<exists>f. extract_from_text (u ''Total 5'') = Inr f)"
proof -
  have m: "contains failure_marker (u ''a<<TRIGGER_EXTRACTOR_FAILURE>>'')"
    by (simp add: failure_marker_def u_def)
  have n: "\<not> contains failure_marker (u ''Total 5'')"
    by (simp add: failure_marker_def u_def)
  show ?thesis
    using sentinel_failure [of "u ''a<<TRIGGER_EXTRACTOR_FAILURE>>''"
        "ExtractorFailure (u ''EXTRACTOR_TIMEOUT'') (u ''Extraction process timed out after 30 seconds'')"]
      sentinel_failure [of "u ''Total 5''"] m n
    by blast
qed


section \<open>Number normalization\<close>

text \<open>
  C7. The raw number \<^verbatim>\<open>1 234.567,89\<close>, matched after the dollar sign, has both marks
  with the comma last. Its normal form keeps the space, \<^verbatim>\<open>float\<close> rejects it, and the
  line yields no amount. With the point last the space is dropped and the number is
  read. The two numbers of the specification are read as 1234.56.
\<close>

theorem comma_decimal_keeps_spaces:
  "normalize_number (u ''1 234.567,89'') = u ''1 234567.89''
   \<and> pyfloat (u ''1 234567.89'') = None
   \<and> extract_currency_and_amount (u ''Total: $1 234.567,89'') = (None, None)
   \<and> pyfloat (normalize_number (u ''1 234,567.89'')) = Some (123456789 / 100)
   \<and> pyfloat (normalize_number (u ''1.234,56'')) = Some (123456 / 100)
   \<and> pyfloat (normalize_number (u ''1,234.56'')) = Some (123456 / 100)"
  by (simp add: evals)


section \<open>The merge with the external backend\<close>

text \<open>
  C8, as amended. With the external backend selected and returning fields, on a text
  that the heuristic extractor accepts, the result is the merge of the two results, or
  the heuristic result alone when every merged field is null. A merged field is the
  external one when that is present, else the heuristic one; the amount is present when
  it is not null, a string field when it is neither null nor the empty string.
\<close>

theorem external_merge:
  assumes "extract_from_text t = Inr h"
  shows "run_extractor (u ''llm'') (Inr extractor_defs) t
           = Inr (if all_none (merge_fields extractor_defs h) then h else merge_fields extractor_defs h)
       \<and> doc_type (merge_fields extractor_defs h)
           = (if doc_type extractor_defs \<noteq> None \<and> doc_type extractor_defs \<noteq> Some [] then doc_type extractor_defs else doc_type h)
       \<and> invoice_number (merge_fields extractor_defs h)
           = (if invoice_number extractor_defs \<noteq> None \<and> invoice_number extractor_defs \<noteq> Some [] then invoice_number extractor_defs
              else invoice_number h)
       \<and> invoice_date (merge_fields extractor_defs h)
           = (if invoice_date extractor_defs \<noteq> None \<and> invoice_date extractor_defs \<noteq> Some [] then invoice_date extractor_defs
              else invoice_date h)
       \<and> total_amount (merge_fields extractor_defs h)
           = (if total_amount extractor_defs \<noteq> None then total_amount extractor_defs else total_amount h)
       \<and> currency (merge_fields extractor_defs h)
           = (if currency extractor_defs \<noteq> None \<and> currency extractor_defs \<noteq> Some [] then currency extractor_defs else currency h)"
  using assms by (simp add: run_extractor_def Let_def merge_fields_def py_or_def truthy_def)

theorem external_merge_witness:
  "run_extractor (u ''llm'')
     (Inr \<lparr>doc_type = None, invoice_number = Some [], invoice_date = None, total_amount = Some 0,
           currency = Some (u ''EUR'')\<rparr>)
     (u ''Invoice: A1'')
   = Inr \<lparr>doc_type = Some (u ''invoice''), invoice_number = Some (u ''A1''), invoice_date = None,
          total_amount = Some 0, currency = Some (u ''EUR'')\<rparr>"
proof -
  have h: "extract_from_text (u ''Invoice: A1'')
      = Inr \<lparr>doc_type = Some (u ''invoice''), invoice_number = Some (u ''A1''), invoice_date = None,
             total_amount = Some 1, currency = None\<rparr>"
    by (simp add: evals)
  from external_merge [OF h] show ?thesis
    by (simp add: merge_fields_def py_or_def truthy_def all_none_def u_def)
qed

theorem external_merge_counterexample:
  "extract_from_text (u ''Invoice: A1'')
     = Inr \<lparr>doc_type = Some (u ''invoice''), invoice_number = Some (u ''A1''), invoice_date = None,
            total_amount = Some 1, currency = None\<rparr>
   \<and> run_extractor (u ''llm'')
       (Inr \<lparr>doc_type = None, invoice_number = Some [], invoice_date = None, total_amount = None,
             currency = None\<rparr>)
       (u ''Invoice: A1'')
     \<noteq> Inr (spec_merge
              \<lparr>doc_type = None, invoice_number = Some [], invoice_date = None, total_amount = None,
               currency = None\<rparr>
              \<lparr>doc_type = Some (u ''invoice''), invoice_number = Some (u ''A1''), invoice_date = None,
               total_amount = Some 1, currency = None\<rparr>)"
proof -
  have h: "extract_from_text (u ''Invoice: A1'')
      = Inr \<lparr>doc_type = Some (u ''invoice''), invoice_number = Some (u ''A1''), invoice_date = None,
             total_amount = Some 1, currency = None\<rparr>"
    by (simp add: evals)
  have r: "run_extractor (u ''llm'')
       (Inr \<lparr>doc_type = None, invoice_number = Some [], invoice_date = None, total_amount = None,
             currency = None\<rparr>)
       (u ''Invoice: A1'')
     = Inr \<lparr>doc_type = Some (u ''invoice''), invoice_number = Some (u ''A1''), invoice_date = None,
            total_amount = Some 1, currency = None\<rparr>"
    by (simp add: h run_extractor_def Let_def merge_fields_def py_or_def truthy_def all_none_def)
  have ne: "u ''A1'' \<noteq> []" by (simp add: u_def)
  show ?thesis using h r ne by (simp add: spec_merge_def)
qed


section \<open>A failed attempt within the retries\<close>

text \<open>
  C9. An attempt on a pending job fails, and the count of its failed attempts, this one
  included, is within \<open>max_retries\<close>: the table is unchanged, the job is the row it was,
  and its id is added at the end of the queue.
\<close>

theorem retry_leaves_job_untouched:
  assumes "session_get (db sys) rid = Some req" and "status req = PENDING"
    and "attempt cfg env (document_text req) = Inl ex"
    and "dict_get (attempts sys) rid 0 + 1 \<le> max_retries cfg"
  shows "db (process_request cfg env rid sys) = db sys
       \<and> session_get (db (process_request cfg env rid sys)) rid = Some req
       \<and> queue (process_request cfg env rid sys) = queue sys @ [rid]"
  using assms by (simp add: process_request_def Let_def enqueue_def)

theorem retry_leaves_job_untouched_witness:
  "db (process_request default_config \<lparr>llm_result = Inl [], timed_out = True, fault = None\<rparr>
         (u ''req_1'')
         \<lparr>db = [new_request (u ''req_1'') (u ''key'') (u ''Total 5'')], queue = [], attempts = []\<rparr>)
     = db \<lparr>db = [new_request (u ''req_1'') (u ''key'') (u ''Total 5'')], queue = [], attempts = []\<rparr>
   \<and> session_get
        (db (process_request default_config \<lparr>llm_result = Inl [], timed_out = True, fault = None\<rparr>
               (u ''req_1'')
               \<lparr>db = [new_request (u ''req_1'') (u ''key'') (u ''Total 5'')], queue = [],
                attempts = []\<rparr>))
        (u ''req_1'')
     = Some (new_request (u ''req_1'') (u ''key'') (u ''Total 5''))
   \<and> queue (process_request default_config \<lparr>llm_result = Inl [], timed_out = True, fault = None\<rparr>
         (u ''req_1'')
         \<lparr>db = [new_request (u ''req_1'') (u ''key'') (u ''Total 5'')], queue = [], attempts = []\<rparr>)
     = queue \<lparr>db = [new_request (u ''req_1'') (u ''key'') (u ''Total 5'')], queue = [],
              attempts = []\<rparr> @ [u ''req_1'']"
proof -
  let ?req = "new_request (u ''req_1'') (u ''key'') (u ''Total 5'')"
  let ?sys = "\<lparr>db = [?req], queue = [], attempts = []\<rparr>"
  let ?env = "\<lparr>llm_result = Inl [], timed_out = True, fault = None\<rparr>"
  have h1: "session_get (db ?sys) (u ''req_1'') = Some ?req"
    by (simp add: session_get_def)
  have h2: "status ?req = PENDING" by simp
  have h3: "attempt default_config ?env (document_text ?req)
      = Inl (TimeoutError (u ''Extraction timed out after '' @ u ''60.0'' @ u '' seconds''))"
    by (simp add: attempt_def execute_with_timeout_def default_config_def)
  have h4: "dict_get (attempts ?sys) (u ''req_1'') 0 + 1 \<le> max_retries default_config"
    by (simp add: dict_get_def default_config_def)
  show ?thesis by (rule retry_leaves_job_untouched [OF h1 h2 h3 h4])
qed


section \<open>The document type\<close>

text \<open>
  C10. On a text without the marker the extractor returns fields whose document type is
  set: \<open>invoice\<close> when the upper-cased text contains \<open>INVOICE\<close>, else \<open>receipt\<close> when it
  contains \<open>RECEIPT\<close>, else \<open>unknown\<close>. A text that contains \<open>INVOICE\<close> in any mix of
  cases is an invoice, whatever else it contains.
\<close>

theorem doc_type_never_null:
  assumes "\<not> contains failure_marker t"
  shows "\<exists>f. extract_from_text t = Inr f
          \<and> doc_type f = Some (detect_doc_type t)
          \<and> detect_doc_type t
              = (if contains (u ''INVOICE'') (upper t) then u ''invoice''
                 else if contains (u ''RECEIPT'') (upper t) then u ''receipt''
                 else u ''unknown'')
          \<and> (detect_doc_type t = u ''invoice'' \<or> detect_doc_type t = u ''receipt''
               \<or> detect_doc_type t = u ''unknown'')
          \<and> (\<forall>w. contains w t \<and> upper w = u ''INVOICE'' \<longrightarrow> detect_doc_type t = u ''invoice'')
          \<and> (\<forall>w. contains w t \<and> upper w = u ''RECEIPT'' \<and> \<not> contains (u ''INVOICE'') (upper t)
                 \<longrightarrow> detect_doc_type t = u ''receipt'')"
proof -
  have a: "detect_doc_type t
              = (if contains (u ''INVOICE'') (upper t) then u ''invoice''
                 else if contains (u ''RECEIPT'') (upper t) then u ''receipt''
                 else u ''unknown'')"
    by (simp add: detect_doc_type_def Let_def)
  have b: "\<forall>w. contains w t \<and> upper w = u ''INVOICE'' \<longrightarrow> detect_doc_type t = u ''invoice''"
    using contains_upper a by force
  have b': "\<forall>w. contains w t \<and> upper w = u ''RECEIPT'' \<and> \<not> contains (u ''INVOICE'') (upper t)
                 \<longrightarrow> detect_doc_type t = u ''receipt''"
    using contains_upper a by force
  have d: "detect_doc_type t = u ''invoice'' \<or> detect_doc_type t = u ''receipt''
      \<or> detect_doc_type t = u ''unknown''"
    by (simp add: a)
  obtain cur amount where c: "extract_currency_and_amount t = (cur, amount)"
    by (cases "extract_currency_and_amount t")
  let ?f = "\<lparr>doc_type = Some (detect_doc_type t),
                invoice_number = extract_invoice_number t,
                invoice_date = extract_date_iso t,
                total_amount = amount,
                currency = cur\<rparr>"
  have e: "extract_from_text t = Inr ?f"
    using assms c by (simp add: extract_from_text_def)
  have s: "doc_type ?f = Some (detect_doc_type t)" by simp
  from e s a d b b' show ?thesis by (intro exI [of _ ?f] conjI)
qed

theorem doc_type_never_null_witness:
  "\<exists>f. extract_from_text (u ''Receipt, inVoice 7'') = Inr f \<and> doc_type f = Some (u ''invoice'')"
proof -
  have n: "\<not> contains failure_marker (u ''Receipt, inVoice 7'')"
    by (simp add: failure_marker_def u_def)
  have w: "contains (u ''inVoice'') (u ''Receipt, inVoice 7'')"
    by (simp add: u_def)
  have v: "upper (u ''inVoice'') = u ''INVOICE''"
    by (simp add: u_def upper_def upper_cp_def is_lower_ascii_def)
  from doc_type_never_null [OF n] w v show ?thesis by metis
qed

end
